theory Spec2Isabelle
  imports Complex_Main "HOL-Library.Word" "HOL-Library.AList" "HOL-Library.Multiset"
begin

section \<open>The query surface of the pbft consensus engine\<close>

text \<open>
  The development follows \<^verbatim>\<open>package pbft\<close>, file \<^verbatim>\<open>api.go\<close> (the type \<^verbatim>\<open>API\<close> and its
  methods) and \<^verbatim>\<open>CreateConsensusEngine\<close> of \<^verbatim>\<open>fst/backend.go\<close>.  The engine itself
  (\<^verbatim>\<open>Pbft.snapshot\<close>, \<^verbatim>\<open>Pbft.Author\<close>), the header type, the chain reader and the constants
  \<^verbatim>\<open>diffInTurn\<close> and \<^verbatim>\<open>rpc.LatestBlockNumber\<close> are declared in files that are not part of
  the sources at hand: they appear below as fields of records or as parameters, and every
  theorem holds for all of their values.
\<close>

subsection \<open>Values\<close>

type_synonym address = "160 word"
type_synonym hash = "256 word"
type_synonym uint64 = "64 word"

text \<open>
  \<^verbatim>\<open>types.Header\<close>: the three observations the API makes of a header.  \<^verbatim>\<open>Number\<close> and
  \<^verbatim>\<open>Difficulty\<close> are \<^verbatim>\<open>*big.Int\<close> (unbounded, not negative in a decoded header);
  \<^verbatim>\<open>Hash\<close> holds the value of the method \<^verbatim>\<open>header.Hash()\<close>.
\<close>

record Header =
  Number :: nat
  Difficulty :: nat
  Hash :: hash

text \<open>\<^verbatim>\<open>big.Int.Uint64()\<close>: the low 64 bits.\<close>

definition Uint64 :: "nat \<Rightarrow> uint64" where
  "Uint64 x = of_nat x"

text \<open>
  \<^verbatim>\<open>consensus.ChainReader\<close>: a read-only view of the chain; a lookup that finds nothing
  returns \<^verbatim>\<open>nil\<close>, here \<open>None\<close>.
\<close>

record ChainReader =
  CurrentHeader :: "Header option"
  GetHeaderByNumber :: "uint64 \<Rightarrow> Header option"
  GetHeaderByHash :: "hash \<Rightarrow> Header option"

text \<open>
  Errors.  \<open>errUnknownBlock\<close> is the package's error value; \<open>MissingBlock n\<close> is
  \<^verbatim>\<open>fmt.Errorf("missing block %d", n)\<close>; \<open>EngineError k\<close> stands for any other error value
  that \<^verbatim>\<open>snapshot\<close> or \<^verbatim>\<open>Author\<close> may return; \<open>NilDereference\<close> is the run-time panic
  of reading a field through a \<^verbatim>\<open>nil\<close> header.
\<close>

datatype error = errUnknownBlock | MissingBlock uint64 | EngineError nat | NilDereference

text \<open>
  \<^verbatim>\<open>Snapshot\<close>: the API hands snapshots through untouched and calls only
  \<^verbatim>\<open>snap.signers()\<close>; the field \<open>signers\<close> holds the list that method returns.
\<close>

record Snapshot =
  snap_Number :: uint64
  snap_Hash :: hash
  signers :: "address list"

subsection \<open>The store of Go maps\<close>

text \<open>
  A value of type \<^verbatim>\<open>map[common.Address]bool\<close> is a reference to a table that lives in
  the store.  A table is an association list with one entry per key; \<open>map_of\<close> reads it.
  \<open>next_ref\<close> is the first reference that \<^verbatim>\<open>make\<close> has not handed out yet.
\<close>

type_synonym ref = nat
type_synonym gomap = "(address \<times> bool) list"

record heap =
  cells :: "ref \<Rightarrow> gomap"
  next_ref :: ref

text \<open>\<^verbatim>\<open>make(map[common.Address]bool)\<close>\<close>

definition make_map :: "heap \<Rightarrow> ref \<times> heap" where
  "make_map h = (next_ref h, h\<lparr>cells := (cells h)(next_ref h := []), next_ref := Suc (next_ref h)\<rparr>)"

text \<open>\<^verbatim>\<open>m[k] = v\<close>\<close>

definition map_assign :: "ref \<Rightarrow> address \<Rightarrow> bool \<Rightarrow> heap \<Rightarrow> heap" where
  "map_assign m k v h = h\<lparr>cells := (cells h)(m := AList.update k v (cells h m))\<rparr>"

text \<open>\<^verbatim>\<open>delete(m, k)\<close>\<close>

definition map_delete :: "ref \<Rightarrow> address \<Rightarrow> heap \<Rightarrow> heap" where
  "map_delete m k h = h\<lparr>cells := (cells h)(m := AList.delete k (cells h m))\<rparr>"

subsection \<open>The engine and its API\<close>

text \<open>
  \<^verbatim>\<open>Pbft\<close>: the proposal table (a reference into the store) and the two methods the API
  calls.  \<open>snapshot pb chain number hash\<close> is \<^verbatim>\<open>pbft.snapshot(chain, number, hash, nil)\<close>.
  The reader/writer lock is not modelled: every operation below runs alone.
\<close>

record Pbft =
  proposals :: ref
  snapshot :: "ChainReader \<Rightarrow> uint64 \<Rightarrow> hash \<Rightarrow> error + Snapshot"
  Author :: "Header \<Rightarrow> error + address"

record API =
  chain :: ChainReader
  pbft :: Pbft

text \<open>\<^verbatim>\<open>func (api *API) Vote(address common.Address, auth bool)\<close>\<close>

definition Vote :: "API \<Rightarrow> address \<Rightarrow> bool \<Rightarrow> heap \<Rightarrow> heap" where
  "Vote api address auth h = map_assign (proposals (pbft api)) address auth h"

text \<open>\<^verbatim>\<open>func (api *API) DropVote(address common.Address)\<close>\<close>

definition DropVote :: "API \<Rightarrow> address \<Rightarrow> heap \<Rightarrow> heap" where
  "DropVote api address h = map_delete (proposals (pbft api)) address h"

text \<open>
  \<^verbatim>\<open>func (api *API) Votes() map[common.Address]bool\<close>.  Go leaves the order in which
  \<^verbatim>\<open>range\<close> delivers the entries of a map open; \<open>range_order\<close> is that order, any
  rearrangement of the table.
\<close>

definition Votes :: "(gomap \<Rightarrow> gomap) \<Rightarrow> API \<Rightarrow> heap \<Rightarrow> ref \<times> heap" where
  "Votes range_order api h =
     (let (copy, h1) = make_map h
      in (copy, fold (\<lambda>(address, auth) h'. map_assign copy address auth h')
                  (range_order (cells h1 (proposals (pbft api)))) h1))"

text \<open>What a caller can do to a map it holds: a sequence of assignments and deletions.\<close>

datatype mutation = Assign address bool | Delete address

fun mutate :: "ref \<Rightarrow> mutation \<Rightarrow> heap \<Rightarrow> heap" where
  "mutate m (Assign k v) h = map_assign m k v h"
| "mutate m (Delete k) h = map_delete m k h"

fun mutate_all :: "ref \<Rightarrow> mutation list \<Rightarrow> heap \<Rightarrow> heap" where
  "mutate_all m [] h = h"
| "mutate_all m (x # xs) h = mutate_all m xs (mutate m x h)"

text \<open>
  The store is well formed for an API when the proposal table was allocated by an earlier
  \<^verbatim>\<open>make\<close> and holds one entry per key.
\<close>

definition table_ok :: "API \<Rightarrow> heap \<Rightarrow> bool" where
  "table_ok api h \<longleftrightarrow>
     proposals (pbft api) < next_ref h \<and> distinct (map fst (cells h (proposals (pbft api))))"

subsection \<open>Resolving a block reference\<close>

text \<open>
  \<^verbatim>\<open>rpc.BlockNumber\<close> is an \<^verbatim>\<open>int64\<close>; \<^verbatim>\<open>uint64(number.Int64())\<close> keeps its 64 bits, so the
  model holds a block number as the word itself.  The parameter \<open>LatestBlockNumber\<close> is the
  constant \<^verbatim>\<open>rpc.LatestBlockNumber\<close>.  A \<^verbatim>\<open>nil\<close> pointer is \<open>None\<close>.
\<close>

text \<open>\<^verbatim>\<open>func (api *API) GetBlockStatusByNumber(number *rpc.BlockNumber) (*Snapshot, error)\<close>\<close>

definition GetBlockStatusByNumber :: "uint64 \<Rightarrow> API \<Rightarrow> uint64 option \<Rightarrow> error + Snapshot" where
  "GetBlockStatusByNumber LatestBlockNumber api number =
     (let header =
            (case number of
               None \<Rightarrow> CurrentHeader (chain api)
             | Some n \<Rightarrow>
                 if n = LatestBlockNumber then CurrentHeader (chain api)
                 else GetHeaderByNumber (chain api) n)
      in case header of
           None \<Rightarrow> Inl errUnknownBlock
         | Some hdr \<Rightarrow> snapshot (pbft api) (chain api) (Uint64 (Number hdr)) (Hash hdr))"

text \<open>\<^verbatim>\<open>func (api *API) GetBlockStatusByHash(hash common.Hash) (*Snapshot, error)\<close>\<close>

definition GetBlockStatusByHash :: "API \<Rightarrow> hash \<Rightarrow> error + Snapshot" where
  "GetBlockStatusByHash api hash =
     (case GetHeaderByHash (chain api) hash of
        None \<Rightarrow> Inl errUnknownBlock
      | Some hdr \<Rightarrow> snapshot (pbft api) (chain api) (Uint64 (Number hdr)) (Hash hdr))"

text \<open>\<^verbatim>\<open>func (api *API) GetValidatorsByNumber(number *rpc.BlockNumber) ([]common.Address, error)\<close>\<close>

definition GetValidatorsByNumber :: "uint64 \<Rightarrow> API \<Rightarrow> uint64 option \<Rightarrow> error + address list" where
  "GetValidatorsByNumber LatestBlockNumber api number =
     (let header =
            (case number of
               None \<Rightarrow> CurrentHeader (chain api)
             | Some n \<Rightarrow>
                 if n = LatestBlockNumber then CurrentHeader (chain api)
                 else GetHeaderByNumber (chain api) n)
      in case header of
           None \<Rightarrow> Inl errUnknownBlock
         | Some hdr \<Rightarrow>
             (case snapshot (pbft api) (chain api) (Uint64 (Number hdr)) (Hash hdr) of
                Inl err \<Rightarrow> Inl err
              | Inr snap \<Rightarrow> Inr (signers snap)))"

text \<open>\<^verbatim>\<open>func (api *API) GetValidatorsByHash(hash common.Hash) ([]common.Address, error)\<close>\<close>

definition GetValidatorsByHash :: "API \<Rightarrow> hash \<Rightarrow> error + address list" where
  "GetValidatorsByHash api hash =
     (case GetHeaderByHash (chain api) hash of
        None \<Rightarrow> Inl errUnknownBlock
      | Some hdr \<Rightarrow>
          (case snapshot (pbft api) (chain api) (Uint64 (Number hdr)) (Hash hdr) of
             Inl err \<Rightarrow> Inl err
           | Inr snap \<Rightarrow> Inr (signers snap)))"

subsection \<open>BlockStatus\<close>

text \<open>
  The result of a \<^verbatim>\<open>float64\<close> division.  \<open>Finite q\<close> stands for the \<^verbatim>\<open>float64\<close> that IEEE
  rounding makes of the exact quotient \<open>q\<close>; the three other values are the ones a zero
  divisor produces.  \<open>float_div a b\<close> is \<^verbatim>\<open>float64(a) / float64(b)\<close> for operands that the
  conversion to \<^verbatim>\<open>float64\<close> keeps exact (below \<open>2 ^ 53\<close>) or a zero \<open>a\<close>;
  lemma \<open>BlockStatus_operands\<close> below shows that BlockStatus divides no others.
\<close>

datatype float64 = NaN | PosInf | NegInf | Finite rat

definition float_div :: "int \<Rightarrow> uint64 \<Rightarrow> float64" where
  "float_div a b =
     (if b = 0 then (if a = 0 then NaN else if 0 < a then PosInf else NegInf)
      else Finite (of_int a / of_nat (unat b)))"

record status =
  InturnPercent :: float64
  SigningStatus :: "address \<rightharpoonup> int"
  NumBlocks :: uint64

text \<open>The variables the loop of BlockStatus updates.\<close>

record locals =
  optimals :: int
  diff :: uint64
  signStatus :: "address \<rightharpoonup> int"

text \<open>\<^verbatim>\<open>signStatus[sealer]++\<close>: a key that is absent reads as 0.\<close>

definition incr :: "(address \<rightharpoonup> int) \<Rightarrow> address \<Rightarrow> (address \<rightharpoonup> int)" where
  "incr m k = m(k \<mapsto> (case m k of None \<Rightarrow> 0 | Some c \<Rightarrow> c) + 1)"

text \<open>
  \<^verbatim>\<open>for n := start; n < end; n++ { ... }\<close>.  The function returns, next to the outcome, the
  arguments of its calls of \<^verbatim>\<open>GetHeaderByNumber\<close> in the order they were made.  The
  counters \<open>optimals\<close> and \<open>signStatus\<close> are Go \<^verbatim>\<open>int\<close>s; the loop runs at most 64 times,
  so they stay far from the range's end and are integers here.
\<close>

function BlockStatus_loop ::
  "nat \<Rightarrow> API \<Rightarrow> uint64 \<Rightarrow> uint64 \<Rightarrow> uint64 list \<Rightarrow> locals \<Rightarrow> uint64 list \<times> (error + locals)" where
  "BlockStatus_loop diffInTurn api n endn reads v =
     (if n < endn then
        (case GetHeaderByNumber (chain api) n of
           None \<Rightarrow> (reads @ [n], Inl (MissingBlock n))
         | Some h \<Rightarrow>
             (let v1 = (if Difficulty h = diffInTurn then v\<lparr>optimals := optimals v + 1\<rparr> else v);
                  v2 = v1\<lparr>diff := diff v1 + Uint64 (Difficulty h)\<rparr>
              in case Author (pbft api) h of
                   Inl err \<Rightarrow> (reads @ [n], Inl err)
                 | Inr sealer \<Rightarrow>
                     BlockStatus_loop diffInTurn api (n + 1) endn (reads @ [n])
                       (v2\<lparr>signStatus := incr (signStatus v2) sealer\<rparr>)))
      else (reads, Inr v))"
  by pat_completeness auto
termination
proof -
  have step: "unat endn - unat (n + 1) < unat endn - unat n" if lt: "n < endn"
    for n endn :: uint64
  proof -
    from lt have below: "unat n < unat endn"
      by (simp add: word_less_nat_alt)
    have "unat endn < 2 ^ 64"
      using unsigned_less [of endn] by simp
    with below have "unat n + 1 < 2 ^ 64"
      by simp
    then have "unat (n + 1) = Suc (unat n)"
      by (simp add: unat_word_ariths)
    with below show ?thesis
      by simp
  qed
  show ?thesis
    by (relation "measure (\<lambda>(d, a, n, e, r, v). unat e - unat n)") (simp_all add: step)
qed

declare BlockStatus_loop.simps [simp del]

text \<open>
  \<^verbatim>\<open>func (api *API) BlockStatus() (*status, error)\<close>, together with the list of header
  numbers it asked the chain for.  The parameter \<open>diffInTurn\<close> is the package's constant
  of that name.
\<close>

definition BlockStatus_run :: "nat \<Rightarrow> API \<Rightarrow> uint64 list \<times> (error + status)" where
  "BlockStatus_run diffInTurn api =
     (case CurrentHeader (chain api) of
        None \<Rightarrow> ([], Inl NilDereference)
      | Some header \<Rightarrow>
          (case snapshot (pbft api) (chain api) (Uint64 (Number header)) (Hash header) of
             Inl err \<Rightarrow> ([], Inl err)
           | Inr snap \<Rightarrow>
               (let endn = Uint64 (Number header);
                    (start, numBlocks) =
                       (if 64 > endn then (let start = 1 in (start, endn - start))
                        else (endn - 64, 64));
                    signStatus0 = fold (\<lambda>s m. m(s \<mapsto> 0)) (signers snap) Map.empty
                in case BlockStatus_loop diffInTurn api start endn []
                          \<lparr>optimals = 0, diff = 0, signStatus = signStatus0\<rparr> of
                     (reads, Inl err) \<Rightarrow> (reads, Inl err)
                   | (reads, Inr v) \<Rightarrow>
                       (reads,
                        Inr \<lparr>InturnPercent = float_div (100 * optimals v) numBlocks,
                             SigningStatus = signStatus v,
                             NumBlocks = numBlocks\<rparr>))))"

definition BlockStatus :: "nat \<Rightarrow> API \<Rightarrow> error + status" where
  "BlockStatus diffInTurn api = snd (BlockStatus_run diffInTurn api)"

definition BlockStatus_reads :: "nat \<Rightarrow> API \<Rightarrow> uint64 list" where
  "BlockStatus_reads diffInTurn api = fst (BlockStatus_run diffInTurn api)"

subsection \<open>The vocabulary of the statements about BlockStatus\<close>

text \<open>
  None of the following is part of the program; the theorems use it to say what the
  program computes.  \<open>block_numbers a b\<close> are the numbers from \<open>a\<close> up to, and without,
  \<open>b\<close>; \<open>headers_in\<close> are the headers the chain has for a list of numbers, if it has them
  all; \<open>sealers_of\<close> are their authors, if all can be recovered.
\<close>

definition block_numbers :: "uint64 \<Rightarrow> uint64 \<Rightarrow> uint64 list" where
  "block_numbers a b = map of_nat [unat a ..< unat b]"

definition headers_in :: "API \<Rightarrow> uint64 list \<Rightarrow> Header list option" where
  "headers_in api ks = those (map (GetHeaderByNumber (chain api)) ks)"

definition recovered :: "API \<Rightarrow> Header \<Rightarrow> address option" where
  "recovered api h = (case Author (pbft api) h of Inl err \<Rightarrow> None | Inr sealer \<Rightarrow> Some sealer)"

definition sealers_of :: "API \<Rightarrow> Header list \<Rightarrow> address list option" where
  "sealers_of api hs = those (map (recovered api) hs)"

text \<open>The number of headers whose difficulty is the in-turn difficulty.\<close>

definition inturn_count :: "nat \<Rightarrow> Header list \<Rightarrow> int" where
  "inturn_count diffInTurn hs = int (length (filter (\<lambda>h. Difficulty h = diffInTurn) hs))"

text \<open>
  The production count per signer: an entry for every signer of the snapshot and for every
  author of an evaluated block, holding the number of evaluated blocks of that author.
\<close>

definition production_counts :: "address list \<Rightarrow> address list \<Rightarrow> (address \<rightharpoonup> int)" where
  "production_counts snapshot_signers sealers =
     (\<lambda>a. if a \<in> set snapshot_signers \<union> set sealers then Some (int (count_list sealers a))
          else None)"

text \<open>
  The window of a head with number \<open>endn\<close>: the 64 numbers before \<open>endn\<close>, or the numbers
  from 1 on when \<open>endn\<close> is below 64.
\<close>

definition window :: "uint64 \<Rightarrow> uint64 list" where
  "window endn = (if 64 > endn then block_numbers 1 endn else block_numbers (endn - 64) endn)"

text \<open>The values of the loop's variables after the headers \<open>hs\<close>, sealed by \<open>sealers\<close>.\<close>

definition tally :: "nat \<Rightarrow> Header list \<Rightarrow> address list \<Rightarrow> locals \<Rightarrow> locals" where
  "tally diffInTurn hs sealers v =
     \<lparr>optimals = optimals v + inturn_count diffInTurn hs,
      diff = diff v + sum_list (map (\<lambda>h. Uint64 (Difficulty h)) hs),
      signStatus = fold (\<lambda>a m. incr m a) sealers (signStatus v)\<rparr>"

subsection \<open>Choosing the consensus engine\<close>

text \<open>
  \<^verbatim>\<open>params.ChainConfig\<close>: the two optional sub-configurations the function inspects;
  their content is of no concern here (type variables).  A \<^verbatim>\<open>nil\<close> pointer is \<open>None\<close>.
\<close>

record ('c, 'p) ChainConfig =
  Clique :: "'c option"
  Pbft :: "'p option"

text \<open>
  \<^verbatim>\<open>fstash.Mode\<close>: the three constants the \<^verbatim>\<open>switch\<close> names; \<open>ModeOther k\<close> is any other
  value of the type.
\<close>

datatype Mode = ModeFake | ModeTest | ModeShared | ModeOther nat

text \<open>
  \<^verbatim>\<open>fstash.Config\<close>: the six fields that the default branch copies, and \<^verbatim>\<open>PowMode\<close>.
\<close>

record CacheConfig =
  CacheDir :: string
  CachesInMem :: int
  CachesOnDisk :: int
  DatasetDir :: string
  DatasetsInMem :: int
  DatasetsOnDisk :: int

record Config = CacheConfig +
  PowMode :: Mode

record ServiceContext =
  ResolvePath :: "string \<Rightarrow> string"

text \<open>
  An engine is represented by the constructor call that makes it: \<open>Fstash_New c notify
  noverify t\<close> is \<^verbatim>\<open>fstash.New(c, notify, noverify)\<close> followed by \<^verbatim>\<open>SetThreads(t)\<close>, where
  \<open>c\<close> holds the fields the composite literal sets.  The log lines are not modelled.
\<close>

datatype ('c, 'p, 'db) Engine =
    Clique_New 'c 'db
  | Pbft_New 'p 'db
  | Fstash_NewFaker
  | Fstash_NewTester bool
  | Fstash_NewShared
  | Fstash_New CacheConfig "string list" bool int

text \<open>\<^verbatim>\<open>func CreateConsensusEngine(ctx, chainConfig, config, notify, noverify, db) consensus.Engine\<close>\<close>

definition CreateConsensusEngine ::
  "ServiceContext \<Rightarrow> ('c, 'p) ChainConfig \<Rightarrow> Config \<Rightarrow> string list \<Rightarrow> bool \<Rightarrow> 'db
     \<Rightarrow> ('c, 'p, 'db) Engine" where
  "CreateConsensusEngine ctx chainConfig config notify noverify db =
     (case Clique chainConfig of
        Some clique \<Rightarrow> Clique_New clique db
      | None \<Rightarrow>
          (case Pbft chainConfig of
             Some pbft_config \<Rightarrow> Pbft_New pbft_config db
           | None \<Rightarrow>
               (case PowMode config of
                  ModeFake \<Rightarrow> Fstash_NewFaker
                | ModeTest \<Rightarrow> Fstash_NewTester noverify
                | ModeShared \<Rightarrow> Fstash_NewShared
                | ModeOther k \<Rightarrow>
                    Fstash_New
                      \<lparr>CacheDir = ResolvePath ctx (CacheDir config),
                       CachesInMem = CachesInMem config,
                       CachesOnDisk = CachesOnDisk config,
                       DatasetDir = DatasetDir config,
                       DatasetsInMem = DatasetsInMem config,
                       DatasetsOnDisk = DatasetsOnDisk config\<rparr>
                      notify noverify (- 1))))"

text \<open>The three families of engines.\<close>

datatype variant = ProofOfAuthority | ByzantineFaultTolerant | ProofOfWork

fun variant_of :: "('c, 'p, 'db) Engine \<Rightarrow> variant" where
  "variant_of (Clique_New c db) = ProofOfAuthority"
| "variant_of (Pbft_New p db) = ByzantineFaultTolerant"
| "variant_of Fstash_NewFaker = ProofOfWork"
| "variant_of (Fstash_NewTester nv) = ProofOfWork"
| "variant_of Fstash_NewShared = ProofOfWork"
| "variant_of (Fstash_New c notify nv t) = ProofOfWork"

subsection \<open>A chain and an engine to compute with\<close>

text \<open>
  \<open>example_chain N\<close> has the blocks \<open>0, \<dots>, N\<close>, block \<open>N\<close> being its head; the blocks
  \<open>1, \<dots>, 53\<close> carry the difficulty 2 and all others the difficulty 1.  The hash of a
  block is its number.
\<close>

definition example_header :: "nat \<Rightarrow> Header" where
  "example_header n =
     \<lparr>Number = n, Difficulty = (if 1 \<le> n \<and> n \<le> 53 then 2 else 1), Hash = of_nat n\<rparr>"

definition example_chain :: "nat \<Rightarrow> ChainReader" where
  "example_chain N =
     \<lparr>CurrentHeader = Some (example_header N),
      GetHeaderByNumber = (\<lambda>n. if unat n \<le> N then Some (example_header (unat n)) else None),
      GetHeaderByHash = (\<lambda>x. if unat x \<le> N then Some (example_header (unat x)) else None)\<rparr>"

text \<open>
  \<open>example_engine\<close> keeps its proposal table at reference 0, resolves every snapshot
  to the signers 1 and 2, and names signer 1 as the author of the even blocks and signer 2
  as the author of the odd ones.  \<open>broken_engine\<close> fails to resolve any snapshot.
\<close>

definition example_sealer :: "nat \<Rightarrow> address" where
  "example_sealer n = (if even n then 1 else 2)"

definition example_engine :: Pbft where
  "example_engine =
     \<lparr>proposals = 0,
      snapshot = (\<lambda>c number hash. Inr \<lparr>snap_Number = number, snap_Hash = hash, signers = [1, 2]\<rparr>),
      Author = (\<lambda>h. Inr (example_sealer (Number h)))\<rparr>"

definition broken_engine :: Pbft where
  "broken_engine = example_engine\<lparr>snapshot := (\<lambda>c number hash. Inl (EngineError 7))\<rparr>"

definition example_api :: "nat \<Rightarrow> API" where
  "example_api N = \<lparr>chain = example_chain N, pbft = example_engine\<rparr>"

definition broken_api :: "nat \<Rightarrow> API" where
  "broken_api N = \<lparr>chain = example_chain N, pbft = broken_engine\<rparr>"

text \<open>A store whose only table, at reference 0, holds the proposal to authorize address 1.\<close>

definition example_heap :: heap where
  "example_heap = \<lparr>cells = (\<lambda>r. [])(0 := [(1, True)]), next_ref = 1\<rparr>"

text \<open>A chain configuration that asks for the pbft engine, and inputs to go with it.\<close>

definition example_chain_config :: "(nat, nat) ChainConfig" where
  "example_chain_config = \<lparr>Clique = None, Pbft = Some 5\<rparr>"

definition pow_chain_config :: "(nat, nat) ChainConfig" where
  "pow_chain_config = \<lparr>Clique = None, Pbft = None\<rparr>"

definition example_config :: "Mode \<Rightarrow> Config" where
  "example_config mode =
     \<lparr>CacheDir = ''fstash'', CachesInMem = 2, CachesOnDisk = 3, DatasetDir = ''data'',
      DatasetsInMem = 1, DatasetsOnDisk = 2, PowMode = mode\<rparr>"

definition example_context :: ServiceContext where
  "example_context = \<lparr>ResolvePath = (\<lambda>path. ''/node/'' @ path)\<rparr>"

section \<open>Vote and DropVote\<close>

lemma cells_map_assign:
  "cells (map_assign m k v h) r = (if r = m then AList.update k v (cells h m) else cells h r)"
  by (simp add: map_assign_def)

lemma cells_map_delete:
  "cells (map_delete m k h) r = (if r = m then AList.delete k (cells h m) else cells h r)"
  by (simp add: map_delete_def)

lemma map_of_fold_update:
  "map_of (fold (\<lambda>(address, auth) al. AList.update address auth al) es acc) =
     map_of acc ++ map_of (rev es)"
  by (induction es arbitrary: acc) (auto simp: update_conv' map_add_upd_left)

lemma fold_assign_cells:
  "cells (fold (\<lambda>(address, auth) h'. map_assign c address auth h') es h) r =
     (if r = c then fold (\<lambda>(address, auth) al. AList.update address auth al) es (cells h c)
      else cells h r)"
  by (induction es arbitrary: h) (auto simp: cells_map_assign)

lemma map_of_rearranged:
  assumes d: "distinct (map fst al)" and m: "mset es = mset al"
  shows "map_of (rev es) = map_of al"
proof -
  from m have "mset (map fst es) = mset (map fst al)"
    by (metis mset_map)
  with d have "distinct (map fst es)"
    by (metis mset_eq_imp_distinct_iff)
  then have "distinct (map fst (rev es))"
    by (metis distinct_rev rev_map)
  moreover from m have "set es = set al"
    by (rule mset_eq_setD)
  then have "set (rev es) = set al"
    by simp
  ultimately show ?thesis
    using d by (metis map_of_inject_set)
qed

lemma cells_mutate: "r \<noteq> m \<Longrightarrow> cells (mutate m x h) r = cells h r"
  by (cases x) (simp_all add: cells_map_assign cells_map_delete)

lemma cells_mutate_all: "r \<noteq> m \<Longrightarrow> cells (mutate_all m xs h) r = cells h r"
  by (induction xs arbitrary: h) (simp_all add: cells_mutate)

lemma example_table:
  "proposals (pbft (example_api N)) = 0" "cells example_heap 0 = [(1, True)]"
  "next_ref example_heap = 1"
  by (simp_all add: example_api_def example_engine_def example_heap_def)

text \<open>
  C5.  \<open>Vote a b\<close> makes the proposal table map \<open>a\<close> to \<open>b\<close>, whether or not \<open>a\<close> had an
  entry, and \<open>DropVote a\<close> leaves \<open>a\<close> without an entry; both leave the entry of every
  other address as it was.  Both are total functions from stores to stores: there is no
  error for them to return.
\<close>

theorem Vote_DropVote_table:
  "map_of (cells (Vote api a b h) (proposals (pbft api))) a = Some b \<and>
   (\<forall>a'. a' \<noteq> a \<longrightarrow>
      map_of (cells (Vote api a b h) (proposals (pbft api))) a' =
      map_of (cells h (proposals (pbft api))) a') \<and>
   map_of (cells (DropVote api a h) (proposals (pbft api))) a = None \<and>
   (\<forall>a'. a' \<noteq> a \<longrightarrow>
      map_of (cells (DropVote api a h) (proposals (pbft api))) a' =
      map_of (cells h (proposals (pbft api))) a')"
  by (simp add: Vote_def DropVote_def cells_map_assign cells_map_delete update_conv' delete_conv')

theorem Vote_DropVote_table_witness:
  "(1 :: address) \<noteq> 2 \<and>
   map_of (cells (Vote (example_api 0) 2 False example_heap) 0) 2 = Some False \<and>
   map_of (cells (Vote (example_api 0) 2 False example_heap) 0) 1 = Some True \<and>
   map_of (cells (DropVote (example_api 0) 1 example_heap) 0) 1 = None \<and>
   map_of (cells (DropVote (example_api 0) 2 example_heap) 0) 1 = Some True"
proof -
  have ne: "(1 :: address) \<noteq> 2"
    by simp
  from Vote_DropVote_table [of "example_api 0" 2 False example_heap] ne
  have "map_of (cells (Vote (example_api 0) 2 False example_heap) 0) 2 = Some False"
    and "map_of (cells (Vote (example_api 0) 2 False example_heap) 0) 1 = Some True"
    and "map_of (cells (DropVote (example_api 0) 2 example_heap) 0) 1 = Some True"
    by (simp_all add: example_table)
  moreover from Vote_DropVote_table [of "example_api 0" 1 True example_heap]
  have "map_of (cells (DropVote (example_api 0) 1 example_heap) 0) 1 = None"
    by (simp add: example_table)
  ultimately show ?thesis
    using ne by simp
qed

text \<open>
  C10.  When address \<open>a\<close> has no entry in the proposal table, \<open>Vote a b\<close> followed by
  \<open>DropVote a\<close> gives back the store it started from, table included, and so does
  \<open>DropVote a\<close> alone.
\<close>

theorem Vote_then_DropVote:
  assumes "map_of (cells h (proposals (pbft api))) a = None"
  shows "DropVote api a (Vote api a b h) = h \<and> DropVote api a h = h"
proof -
  from assms have fresh: "a \<notin> fst ` set (cells h (proposals (pbft api)))"
    by (simp add: map_of_eq_None_iff)
  then have "DropVote api a (Vote api a b h) = h"
    by (simp add: Vote_def DropVote_def map_assign_def map_delete_def delete_update_same)
  moreover from fresh have "DropVote api a h = h"
    by (simp add: DropVote_def map_delete_def)
  ultimately show ?thesis
    by simp
qed

theorem Vote_then_DropVote_witness:
  "map_of (cells example_heap (proposals (pbft (example_api 0)))) 2 = None \<and>
   DropVote (example_api 0) 2 (Vote (example_api 0) 2 True example_heap) = example_heap \<and>
   DropVote (example_api 0) 2 example_heap = example_heap"
proof -
  have free: "map_of (cells example_heap (proposals (pbft (example_api 0)))) 2 = None"
    by (simp add: example_table)
  from Vote_then_DropVote [OF free, of True] free show ?thesis
    by simp
qed

section \<open>Votes\<close>

text \<open>
  C6.  In a well-formed store, and whatever order \<^verbatim>\<open>range\<close> delivers the entries in,
  \<open>Votes\<close> returns a reference to a table with the content of the proposal table.  The
  reference is not the one of the proposal table, the call leaves the proposal table as
  it was, and so does every sequence of assignments and deletions applied to the returned
  map afterwards.
\<close>

theorem Votes_copy:
  assumes ok: "table_ok api h"
    and order: "\<forall>al. mset (range_order al) = mset al"
    and run: "Votes range_order api h = (copy, h')"
  shows "map_of (cells h' copy) = map_of (cells h (proposals (pbft api))) \<and>
         cells h' (proposals (pbft api)) = cells h (proposals (pbft api)) \<and>
         copy \<noteq> proposals (pbft api) \<and>
         (\<forall>ms. cells (mutate_all copy ms h') (proposals (pbft api)) =
                cells h (proposals (pbft api)))"
proof -
  let ?p = "proposals (pbft api)"
  from ok have alloc: "?p < next_ref h" and d: "distinct (map fst (cells h ?p))"
    by (simp_all add: table_ok_def)
  from run have c: "copy = next_ref h"
    by (simp add: Votes_def make_map_def)
  with alloc have ne: "copy \<noteq> ?p" "?p \<noteq> copy"
    by simp_all
  from run c ne have h': "h' = fold (\<lambda>(address, auth) h'. map_assign copy address auth h')
        (range_order (cells h ?p))
        (h\<lparr>cells := (cells h)(copy := []), next_ref := Suc (next_ref h)\<rparr>)"
    by (simp add: Votes_def make_map_def)
  have table: "cells h' ?p = cells h ?p"
    using ne by (simp add: h' fold_assign_cells)
  have "map_of (cells h' copy) = map_of (rev (range_order (cells h ?p)))"
    by (simp add: h' fold_assign_cells map_of_fold_update)
  also have "\<dots> = map_of (cells h ?p)"
    using d order by (intro map_of_rearranged) simp_all
  finally have content: "map_of (cells h' copy) = map_of (cells h ?p)" .
  have later: "\<forall>ms. cells (mutate_all copy ms h') ?p = cells h ?p"
    using ne table by (simp add: cells_mutate_all)
  from content table ne(1) later show ?thesis
    by (intro conjI)
qed

theorem Votes_copy_witness:
  "table_ok (example_api 0) example_heap \<and>
   (\<forall>al :: gomap. mset (rev al) = mset al) \<and>
   fst (Votes rev (example_api 0) example_heap) = 1 \<and>
   map_of (cells (snd (Votes rev (example_api 0) example_heap)) 1) = map_of [(1, True)] \<and>
   cells (mutate_all 1 [Assign 1 False, Delete 1, Assign 5 True]
            (snd (Votes rev (example_api 0) example_heap))) 0 = [(1, True)]"
proof -
  have ok: "table_ok (example_api 0) example_heap"
    by (simp add: table_ok_def example_table)
  have order: "\<forall>al :: gomap. mset (rev al) = mset al"
    by simp
  have copy: "fst (Votes rev (example_api 0) example_heap) = 1"
    by (simp add: Votes_def make_map_def example_table split_def)
  note copied = Votes_copy [OF ok order surjective_pairing]
  from copied copy
  have content: "map_of (cells (snd (Votes rev (example_api 0) example_heap)) 1) =
      map_of [(1, True)]"
    by (simp add: example_table)
  from copied copy
  have "\<forall>ms. cells (mutate_all 1 ms (snd (Votes rev (example_api 0) example_heap))) 0 =
      [(1, True)]"
    by (simp add: example_table)
  then have "cells (mutate_all 1 [Assign 1 False, Delete 1, Assign 5 True]
      (snd (Votes rev (example_api 0) example_heap))) 0 = [(1, True)]"
    by (rule spec)
  with ok order copy content show ?thesis
    by (intro conjI)
qed

section \<open>Resolving block references\<close>

text \<open>
  C2.  For the four queries that take a block reference: with no number, or with the
  number \<open>LatestBlockNumber\<close>, the query answers from the snapshot at the current head;
  with any other number for which the chain has no header, and with a hash for which it
  has none, the query returns \<open>errUnknownBlock\<close> and no result.
\<close>

theorem block_reference:
  "((number = None \<or> number = Some L) \<and> CurrentHeader (chain api) = Some hdr \<longrightarrow>
      GetBlockStatusByNumber L api number =
        snapshot (pbft api) (chain api) (Uint64 (Number hdr)) (Hash hdr) \<and>
      GetValidatorsByNumber L api number =
        map_sum id signers (snapshot (pbft api) (chain api) (Uint64 (Number hdr)) (Hash hdr))) \<and>
   (n \<noteq> L \<and> GetHeaderByNumber (chain api) n = None \<longrightarrow>
      GetBlockStatusByNumber L api (Some n) = Inl errUnknownBlock \<and>
      GetValidatorsByNumber L api (Some n) = Inl errUnknownBlock) \<and>
   (GetHeaderByHash (chain api) x = None \<longrightarrow>
      GetBlockStatusByHash api x = Inl errUnknownBlock \<and>
      GetValidatorsByHash api x = Inl errUnknownBlock)"
  by (auto simp: GetBlockStatusByNumber_def GetValidatorsByNumber_def GetBlockStatusByHash_def
        GetValidatorsByHash_def split: sum.splits)

lemma example_lookups:
  "CurrentHeader (chain (example_api N)) = Some (example_header N)"
  "GetHeaderByNumber (chain (example_api N)) n =
     (if unat n \<le> N then Some (example_header (unat n)) else None)"
  "GetHeaderByHash (chain (example_api N)) x =
     (if unat x \<le> N then Some (example_header (unat x)) else None)"
  "CurrentHeader (chain (broken_api N)) = Some (example_header N)"
  "GetHeaderByNumber (chain (broken_api N)) n =
     (if unat n \<le> N then Some (example_header (unat n)) else None)"
  "GetHeaderByHash (chain (broken_api N)) x =
     (if unat x \<le> N then Some (example_header (unat x)) else None)"
  by (simp_all add: example_api_def broken_api_def example_chain_def)

lemma example_snapshot:
  "snapshot (pbft (example_api N)) c k x = Inr \<lparr>snap_Number = k, snap_Hash = x, signers = [1, 2]\<rparr>"
  "snapshot (pbft (broken_api N)) c k x = Inl (EngineError 7)"
  by (simp_all add: example_api_def broken_api_def example_engine_def broken_engine_def)

theorem block_reference_witness:
  "CurrentHeader (chain (example_api 3)) = Some (example_header 3) \<and>
   GetValidatorsByNumber (- 1) (example_api 3) None = Inr [1, 2] \<and>
   GetBlockStatusByNumber (- 1) (example_api 3) (Some (- 1)) =
     Inr \<lparr>snap_Number = 3, snap_Hash = 3, signers = [1, 2]\<rparr> \<and>
   (9 :: uint64) \<noteq> - 1 \<and>
   GetHeaderByNumber (chain (example_api 3)) 9 = None \<and>
   GetValidatorsByNumber (- 1) (example_api 3) (Some 9) = Inl errUnknownBlock \<and>
   GetBlockStatusByNumber (- 1) (example_api 3) (Some 9) = Inl errUnknownBlock \<and>
   GetHeaderByHash (chain (example_api 3)) 9 = None \<and>
   GetValidatorsByHash (example_api 3) 9 = Inl errUnknownBlock \<and>
   GetBlockStatusByHash (example_api 3) 9 = Inl errUnknownBlock"
proof -
  have head: "CurrentHeader (chain (example_api 3)) = Some (example_header 3)"
    by (simp add: example_lookups)
  have other: "(9 :: uint64) \<noteq> - 1"
    by simp
  have number: "GetHeaderByNumber (chain (example_api 3)) 9 = None"
    by (simp add: example_lookups)
  have hash: "GetHeaderByHash (chain (example_api 3)) 9 = None"
    by (simp add: example_lookups)
  from block_reference [of None "- 1" "example_api 3" "example_header 3" 9 9] head
  have "GetValidatorsByNumber (- 1) (example_api 3) None = Inr [1, 2]"
    by (simp add: example_snapshot)
  moreover
  from block_reference [of "Some (- 1)" "- 1" "example_api 3" "example_header 3" 9 9] head
  have "GetBlockStatusByNumber (- 1) (example_api 3) (Some (- 1)) =
      Inr \<lparr>snap_Number = 3, snap_Hash = 3, signers = [1, 2]\<rparr>"
    by (simp add: example_snapshot example_header_def Uint64_def)
  moreover
  from block_reference [of None "- 1" "example_api 3" "example_header 3" 9 9] other number hash
  have "GetValidatorsByNumber (- 1) (example_api 3) (Some 9) = Inl errUnknownBlock"
    and "GetBlockStatusByNumber (- 1) (example_api 3) (Some 9) = Inl errUnknownBlock"
    and "GetValidatorsByHash (example_api 3) 9 = Inl errUnknownBlock"
    and "GetBlockStatusByHash (example_api 3) 9 = Inl errUnknownBlock"
    by simp_all
  ultimately show ?thesis
    using head other number hash by (intro conjI)
qed

section \<open>Choosing the consensus engine\<close>

text \<open>
  C7.  \<open>CreateConsensusEngine\<close> returns the Clique engine when the chain configuration
  has a Clique part, else the pbft engine when it has a Pbft part, else the proof-of-work
  engine that \<open>PowMode\<close> names.  The family of the engine is a function of the chain
  configuration alone: no other argument of the call has a say in it.
\<close>

theorem CreateConsensusEngine_variant:
  "(Clique chainConfig = Some c \<longrightarrow>
      CreateConsensusEngine ctx chainConfig config notify noverify db = Clique_New c db) \<and>
   (Clique chainConfig = None \<and> Pbft chainConfig = Some p \<longrightarrow>
      CreateConsensusEngine ctx chainConfig config notify noverify db = Pbft_New p db) \<and>
   (Clique chainConfig = None \<and> Pbft chainConfig = None \<longrightarrow>
      (PowMode config = ModeFake \<longrightarrow>
         CreateConsensusEngine ctx chainConfig config notify noverify db = Fstash_NewFaker) \<and>
      (PowMode config = ModeTest \<longrightarrow>
         CreateConsensusEngine ctx chainConfig config notify noverify db =
           Fstash_NewTester noverify) \<and>
      (PowMode config = ModeShared \<longrightarrow>
         CreateConsensusEngine ctx chainConfig config notify noverify db = Fstash_NewShared) \<and>
      (PowMode config = ModeOther k \<longrightarrow>
         (\<exists>caches. CreateConsensusEngine ctx chainConfig config notify noverify db =
            Fstash_New caches notify noverify (- 1)))) \<and>
   variant_of (CreateConsensusEngine ctx chainConfig config notify noverify db) =
     (if Clique chainConfig \<noteq> None then ProofOfAuthority
      else if Pbft chainConfig \<noteq> None then ByzantineFaultTolerant
      else ProofOfWork) \<and>
   variant_of (CreateConsensusEngine ctx chainConfig config notify noverify db) =
     variant_of (CreateConsensusEngine ctx' chainConfig config' notify' noverify' db')"
  by (auto simp: CreateConsensusEngine_def split: option.splits Mode.splits)

theorem CreateConsensusEngine_variant_witness:
  "Clique example_chain_config = None \<and> Pbft example_chain_config = Some 5 \<and>
   CreateConsensusEngine example_context example_chain_config (example_config ModeFake)
     [''http://localhost''] False (0 :: nat) = Pbft_New 5 0 \<and>
   Clique pow_chain_config = None \<and> Pbft pow_chain_config = None \<and>
   PowMode (example_config ModeTest) = ModeTest \<and>
   CreateConsensusEngine example_context pow_chain_config (example_config ModeTest)
     [''http://localhost''] True (0 :: nat) = Fstash_NewTester True"
proof -
  have pbft: "Clique example_chain_config = None \<and> Pbft example_chain_config = Some 5"
    by (simp add: example_chain_config_def)
  have pow: "Clique pow_chain_config = None \<and> Pbft pow_chain_config = None"
    by (simp add: pow_chain_config_def)
  have mode: "PowMode (example_config ModeTest) = ModeTest"
    by (simp add: example_config_def)
  from CreateConsensusEngine_variant
         [where chainConfig = example_chain_config and ctx = example_context
            and config = "example_config ModeFake" and notify = "[''http://localhost'']"
            and noverify = False and db = "0 :: nat" and p = 5 and c = 0 and k = 0
            and ctx' = example_context and config' = "example_config ModeFake"
            and notify' = "[]" and noverify' = False and db' = "0 :: nat"] pbft
  have "CreateConsensusEngine example_context example_chain_config (example_config ModeFake)
          [''http://localhost''] False (0 :: nat) = Pbft_New 5 0"
    by simp
  moreover
  from CreateConsensusEngine_variant
         [where chainConfig = pow_chain_config and ctx = example_context
            and config = "example_config ModeTest" and notify = "[''http://localhost'']"
            and noverify = True and db = "0 :: nat" and p = 5 and c = 0 and k = 0
            and ctx' = example_context and config' = "example_config ModeTest"
            and notify' = "[]" and noverify' = True and db' = "0 :: nat"] pow mode
  have "CreateConsensusEngine example_context pow_chain_config (example_config ModeTest)
          [''http://localhost''] True (0 :: nat) = Fstash_NewTester True"
    by simp
  ultimately show ?thesis
    using pbft pow mode by (intro conjI) simp_all
qed

section \<open>BlockStatus\<close>

subsection \<open>The loop\<close>

lemma unat_succ:
  fixes n e :: uint64
  assumes "n < e"
  shows "unat (n + 1) = Suc (unat n)"
proof -
  from assms have below: "unat n < unat e"
    by (simp add: word_less_nat_alt)
  have "unat e < 2 ^ 64"
    using unsigned_less [of e] by simp
  with below have "unat n + 1 < 2 ^ 64"
    by simp
  then show ?thesis
    by (simp add: unat_word_ariths)
qed

lemma block_numbers_step:
  "n < e \<Longrightarrow> block_numbers n e = n # block_numbers (n + 1) e"
  by (simp add: block_numbers_def unat_succ word_less_nat_alt upt_conv_Cons)

lemma block_numbers_done:
  "\<not> n < e \<Longrightarrow> block_numbers n e = []"
  by (simp add: block_numbers_def word_less_nat_alt)

lemma tally_Nil: "tally d [] [] v = v"
  by (simp add: tally_def inturn_count_def)

lemma tally_Cons:
  "tally d (h # hs) (a # as) v =
     tally d hs as
       ((if Difficulty h = d then v\<lparr>optimals := optimals v + 1\<rparr> else v)
          \<lparr>diff := diff v + Uint64 (Difficulty h), signStatus := incr (signStatus v) a\<rparr>)"
  by (simp add: tally_def inturn_count_def add.assoc)

lemma loop_unfold:
  "BlockStatus_loop d api n e rs v =
     (if n < e then
        (case GetHeaderByNumber (chain api) n of
           None \<Rightarrow> (rs @ [n], Inl (MissingBlock n))
         | Some h \<Rightarrow>
             (case Author (pbft api) h of
                Inl err \<Rightarrow> (rs @ [n], Inl err)
              | Inr sealer \<Rightarrow>
                  BlockStatus_loop d api (n + 1) e (rs @ [n])
                    ((if Difficulty h = d then v\<lparr>optimals := optimals v + 1\<rparr> else v)
                       \<lparr>diff := diff v + Uint64 (Difficulty h),
                        signStatus := incr (signStatus v) sealer\<rparr>)))
      else (rs, Inr v))"
  by (subst BlockStatus_loop.simps) (simp add: Let_def split: option.splits sum.splits)

lemma loop_complete:
  "headers_in api (block_numbers n e) = Some hs \<Longrightarrow> sealers_of api hs = Some as \<Longrightarrow>
   BlockStatus_loop d api n e rs v = (rs @ block_numbers n e, Inr (tally d hs as v))"
proof (induction hs arbitrary: n rs v as)
  case Nil
  have "\<not> n < e"
  proof
    assume "n < e"
    with Nil.prems(1) show False
      by (simp add: block_numbers_step headers_in_def split: option.splits)
  qed
  moreover from Nil.prems(2) have "as = []"
    by (simp add: sealers_of_def)
  ultimately show ?case
    by (subst loop_unfold) (simp add: block_numbers_done tally_Nil)
next
  case (Cons h hs)
  have lt: "n < e"
  proof (rule ccontr)
    assume "\<not> n < e"
    with Cons.prems(1) show False
      by (simp add: block_numbers_done headers_in_def)
  qed
  with Cons.prems(1) have here: "GetHeaderByNumber (chain api) n = Some h"
    and rest: "headers_in api (block_numbers (n + 1) e) = Some hs"
    by (auto simp: block_numbers_step headers_in_def split: option.splits)
  from Cons.prems(2) obtain a as' where a: "Author (pbft api) h = Inr a"
    and as: "as = a # as'" and rest': "sealers_of api hs = Some as'"
    by (auto simp: sealers_of_def recovered_def split: option.splits sum.splits)
  show ?case
    by (subst loop_unfold)
       (simp add: lt here a as block_numbers_step tally_Cons Cons.IH [OF rest rest'])
qed

lemma loop_returns:
  "BlockStatus_loop d api n e rs v = (rs', Inr v') \<Longrightarrow>
   \<exists>hs as. headers_in api (block_numbers n e) = Some hs \<and> sealers_of api hs = Some as"
proof (induction "unat e - unat n" arbitrary: n rs v)
  case 0
  then have "\<not> n < e"
    by (simp add: word_less_nat_alt)
  then show ?case
    by (simp add: block_numbers_done headers_in_def sealers_of_def)
next
  case (Suc k)
  then have lt: "n < e"
    by (simp add: word_less_nat_alt)
  with Suc.hyps(2) have k: "k = unat e - unat (n + 1)"
    by (simp add: unat_succ)
  from Suc.prems lt obtain h a where here: "GetHeaderByNumber (chain api) n = Some h"
    and a: "Author (pbft api) h = Inr a"
    and onward: "BlockStatus_loop d api (n + 1) e (rs @ [n])
          ((if Difficulty h = d then v\<lparr>optimals := optimals v + 1\<rparr> else v)
             \<lparr>diff := diff v + Uint64 (Difficulty h), signStatus := incr (signStatus v) a\<rparr>) =
        (rs', Inr v')"
    by (subst (asm) loop_unfold) (auto split: option.splits sum.splits)
  from Suc.hyps(1) [OF k onward] obtain hs as
    where "headers_in api (block_numbers (n + 1) e) = Some hs" and "sealers_of api hs = Some as"
    by blast
  with lt here a have "headers_in api (block_numbers n e) = Some (h # hs)"
    and "sealers_of api (h # hs) = Some (a # as)"
    by (simp_all add: block_numbers_step headers_in_def sealers_of_def recovered_def)
  then show ?case
    by blast
qed

lemma fold_incr:
  "fold (\<lambda>a m. incr m a) as m a =
     (if a \<in> set as \<or> m a \<noteq> None
      then Some ((case m a of None \<Rightarrow> 0 | Some c \<Rightarrow> c) + int (count_list as a)) else None)"
  by (induction as arbitrary: m) (auto simp: incr_def split: option.splits)

lemma fold_zero:
  "fold (\<lambda>s m. m(s \<mapsto> 0)) ss m a = (if a \<in> set ss then Some (0 :: int) else m a)"
  by (induction ss arbitrary: m) auto

lemma signStatus_counts:
  "fold (\<lambda>a m. incr m a) as (fold (\<lambda>s m. m(s \<mapsto> 0)) ss Map.empty) = production_counts ss as"
  by (rule ext) (simp add: fold_incr fold_zero production_counts_def)

lemma those_length: "those xs = Some ys \<Longrightarrow> length ys = length xs"
  by (induction xs arbitrary: ys) (auto split: option.splits)

lemma headers_in_length: "headers_in api ks = Some hs \<Longrightarrow> length hs = length ks"
  by (auto simp: headers_in_def dest: those_length)

lemma sealers_of_length: "sealers_of api hs = Some as \<Longrightarrow> length as = length hs"
  by (auto simp: sealers_of_def dest: those_length)

lemma BlockStatus_run_complete:
  assumes head: "CurrentHeader (chain api) = Some hdr"
    and snap: "snapshot (pbft api) (chain api) (Uint64 (Number hdr)) (Hash hdr) = Inr snap"
    and hs: "headers_in api (window (Uint64 (Number hdr))) = Some hs"
    and as: "sealers_of api hs = Some as"
  shows "BlockStatus_run d api =
           (window (Uint64 (Number hdr)),
            Inr \<lparr>InturnPercent =
                   float_div (100 * inturn_count d hs)
                     (if 64 > Uint64 (Number hdr) then Uint64 (Number hdr) - 1 else 64),
                 SigningStatus = production_counts (signers snap) as,
                 NumBlocks = (if 64 > Uint64 (Number hdr) then Uint64 (Number hdr) - 1 else 64)\<rparr>)"
proof (cases "64 > Uint64 (Number hdr)")
  case True
  with hs have "headers_in api (block_numbers 1 (Uint64 (Number hdr))) = Some hs"
    by (simp add: window_def)
  from loop_complete [OF this as] True head snap show ?thesis
    by (simp add: BlockStatus_run_def Let_def window_def tally_def signStatus_counts)
next
  case False
  with hs have "headers_in api (block_numbers (Uint64 (Number hdr) - 64) (Uint64 (Number hdr))) = Some hs"
    by (simp add: window_def)
  from loop_complete [OF this as] False head snap show ?thesis
    by (simp add: BlockStatus_run_def Let_def window_def tally_def signStatus_counts)
qed

lemma BlockStatus_run_returns:
  assumes "BlockStatus d api = Inr st"
  shows "\<exists>hdr snap hs as.
           CurrentHeader (chain api) = Some hdr \<and>
           snapshot (pbft api) (chain api) (Uint64 (Number hdr)) (Hash hdr) = Inr snap \<and>
           headers_in api (window (Uint64 (Number hdr))) = Some hs \<and>
           sealers_of api hs = Some as"
proof -
  from assms obtain hdr where head: "CurrentHeader (chain api) = Some hdr"
    by (cases "CurrentHeader (chain api)") (simp_all add: BlockStatus_def BlockStatus_run_def)
  with assms obtain snap
    where snap: "snapshot (pbft api) (chain api) (Uint64 (Number hdr)) (Hash hdr) = Inr snap"
    by (cases "snapshot (pbft api) (chain api) (Uint64 (Number hdr)) (Hash hdr)")
       (simp_all add: BlockStatus_def BlockStatus_run_def)
  let ?e = "Uint64 (Number hdr)"
  let ?start = "if 64 > ?e then 1 else ?e - 64"
  let ?v = "\<lparr>optimals = 0, diff = 0,
             signStatus = fold (\<lambda>s m. m(s \<mapsto> 0)) (signers snap) Map.empty\<rparr>"
  obtain rs out where loop: "BlockStatus_loop d api ?start ?e [] ?v = (rs, out)"
    by (cases "BlockStatus_loop d api ?start ?e [] ?v")
  with assms head snap obtain v' where "out = Inr v'"
    by (cases out) (auto simp: BlockStatus_def BlockStatus_run_def split: if_splits)
  with loop have "BlockStatus_loop d api ?start ?e [] ?v = (rs, Inr v')"
    by simp
  from loop_returns [OF this] obtain hs as
    where "headers_in api (block_numbers ?start ?e) = Some hs" and "sealers_of api hs = Some as"
    by blast
  moreover have "block_numbers ?start ?e = window ?e"
    by (simp add: window_def)
  ultimately show ?thesis
    using head snap by auto
qed

subsection \<open>The window in numbers\<close>

lemma unat_Uint64: "N < 2 ^ 64 \<Longrightarrow> unat (Uint64 N) = N"
  by (simp add: Uint64_def unat_of_nat)

lemma Uint64_less_64: "N < 2 ^ 64 \<Longrightarrow> (64 > Uint64 N) = (N < 64)"
  by (simp add: word_less_nat_alt unat_Uint64)

lemma window_nat:
  assumes "N < 2 ^ 64"
  shows "window (Uint64 N) = (if N < 64 then map of_nat [1 ..< N] else map of_nat [N - 64 ..< N])"
proof (cases "N < 64")
  case True
  with assms show ?thesis
    by (simp add: window_def Uint64_less_64 block_numbers_def unat_Uint64)
next
  case False
  with assms have "64 \<le> Uint64 N"
    using Uint64_less_64 [of N] by simp
  then have "unat (Uint64 N - 64) = unat (Uint64 N) - 64"
    by (simp add: unat_sub)
  with assms False show ?thesis
    by (simp add: window_def Uint64_less_64 block_numbers_def unat_Uint64)
qed

lemma head_not_read:
  assumes "N < 2 ^ 64"
  shows "(of_nat N :: uint64) \<notin> set (map of_nat [a ..< N])"
proof
  assume mem: "(of_nat N :: uint64) \<in> set (map of_nat [a ..< N])"
  have "\<exists>k\<in>set [a ..< N]. (of_nat N :: uint64) = of_nat k"
    using mem unfolding set_map image_iff .
  then obtain k where "k \<in> set [a ..< N]" and eq: "(of_nat N :: uint64) = of_nat k"
    by (rule bexE)
  then have k: "k < N"
    by simp
  with assms have "k < 2 ^ 64"
    by simp
  then have "unat (of_nat k :: uint64) = k"
    by (simp add: unat_of_nat)
  moreover from assms have "unat (of_nat N :: uint64) = N"
    by (simp add: unat_of_nat)
  ultimately have "N = k"
    using eq by metis
  with k show False
    by simp
qed

subsection \<open>The example chain\<close>

lemma those_map_Some:
  "\<forall>i\<in>set is. f i = Some (g i) \<Longrightarrow> those (map f is) = Some (map g is)"
  by (induction "is") simp_all

lemma example_headers_in:
  assumes "b \<le> Suc N" "b \<le> 2 ^ 64"
  shows "headers_in (example_api N) (map of_nat [a ..< b]) = Some (map example_header [a ..< b])"
proof -
  have "GetHeaderByNumber (chain (example_api N)) (of_nat i) = Some (example_header i)"
    if "i \<in> set [a ..< b]" for i
  proof -
    from that assms have "i < 2 ^ 64" and "i \<le> N"
      by simp_all
    then show ?thesis
      by (simp add: example_lookups unat_of_nat)
  qed
  then have "those (map (\<lambda>i. GetHeaderByNumber (chain (example_api N)) (of_nat i)) [a ..< b]) =
      Some (map example_header [a ..< b])"
    by (intro those_map_Some) simp
  then show ?thesis
    by (simp add: headers_in_def comp_def)
qed

lemma example_sealers_of:
  "sealers_of (example_api N) (map example_header is) = Some (map example_sealer is)"
proof -
  have "those (map (\<lambda>i. recovered (example_api N) (example_header i)) is) =
      Some (map example_sealer is)"
    by (intro those_map_Some)
       (simp add: recovered_def example_api_def example_engine_def example_header_def)
  then show ?thesis
    by (simp add: sealers_of_def comp_def)
qed

lemma example_inturn: "inturn_count 2 (map example_header [0 ..< 64]) = 53"
  by (simp add: inturn_count_def example_header_def upt_rec [of _ "numeral _"])

lemma example_inturn_genesis_apart: "inturn_count 2 (map example_header [1 ..< 64]) = 53"
  by (simp add: inturn_count_def example_header_def upt_rec [of _ "numeral _"])

subsection \<open>What a returning call has done\<close>

lemma BlockStatus_returned:
  assumes head: "CurrentHeader (chain api) = Some hdr"
    and ret: "BlockStatus d api = Inr st"
  shows "\<exists>snap hs as.
           snapshot (pbft api) (chain api) (Uint64 (Number hdr)) (Hash hdr) = Inr snap \<and>
           headers_in api (window (Uint64 (Number hdr))) = Some hs \<and>
           sealers_of api hs = Some as \<and>
           BlockStatus_reads d api = window (Uint64 (Number hdr)) \<and>
           st = \<lparr>InturnPercent =
                   float_div (100 * inturn_count d hs)
                     (if 64 > Uint64 (Number hdr) then Uint64 (Number hdr) - 1 else 64),
                 SigningStatus = production_counts (signers snap) as,
                 NumBlocks = (if 64 > Uint64 (Number hdr) then Uint64 (Number hdr) - 1 else 64)\<rparr>"
proof -
  from BlockStatus_run_returns [OF ret] head obtain snap hs as
    where snap: "snapshot (pbft api) (chain api) (Uint64 (Number hdr)) (Hash hdr) = Inr snap"
      and hs: "headers_in api (window (Uint64 (Number hdr))) = Some hs"
      and as: "sealers_of api hs = Some as"
    by auto
  note run = BlockStatus_run_complete [OF head snap hs as, of d]
  from run have "BlockStatus_reads d api = window (Uint64 (Number hdr))"
    by (simp add: BlockStatus_reads_def)
  moreover from run ret
  have "st = \<lparr>InturnPercent =
                   float_div (100 * inturn_count d hs)
                     (if 64 > Uint64 (Number hdr) then Uint64 (Number hdr) - 1 else 64),
                 SigningStatus = production_counts (signers snap) as,
                 NumBlocks = (if 64 > Uint64 (Number hdr) then Uint64 (Number hdr) - 1 else 64)\<rparr>"
    by (simp add: BlockStatus_def)
  ultimately show ?thesis
    using snap hs as by blast
qed

lemma example_BlockStatus_run:
  assumes "N < 2 ^ 64"
  shows "BlockStatus_run d (example_api N) =
           (map of_nat [(if N < 64 then 1 else N - 64) ..< N],
            Inr \<lparr>InturnPercent =
                   float_div
                     (100 * inturn_count d
                        (map example_header [(if N < 64 then 1 else N - 64) ..< N]))
                     (if N < 64 then of_nat N - 1 else 64),
                 SigningStatus =
                   production_counts [1, 2]
                     (map example_sealer [(if N < 64 then 1 else N - 64) ..< N]),
                 NumBlocks = (if N < 64 then of_nat N - 1 else 64)\<rparr>)"
proof -
  let ?a = "if N < 64 then 1 else N - 64"
  have head: "CurrentHeader (chain (example_api N)) = Some (example_header N)"
    by (simp add: example_lookups)
  have number: "Number (example_header N) = N"
    by (simp add: example_header_def)
  have snap: "snapshot (pbft (example_api N)) (chain (example_api N))
        (Uint64 (Number (example_header N))) (Hash (example_header N)) =
      Inr \<lparr>snap_Number = Uint64 N, snap_Hash = of_nat N, signers = [1, 2]\<rparr>"
    by (simp add: example_snapshot example_header_def)
  from assms have w: "window (Uint64 (Number (example_header N))) = map of_nat [?a ..< N]"
    by (simp add: number window_nat)
  from assms have hs: "headers_in (example_api N) (window (Uint64 (Number (example_header N)))) =
      Some (map example_header [?a ..< N])"
    unfolding w by (intro example_headers_in) simp_all
  note run = BlockStatus_run_complete [OF head snap hs example_sealers_of, of d]
  from assms show ?thesis
    unfolding run w by (simp add: number Uint64_less_64) (simp add: Uint64_def)
qed

subsection \<open>The window that is read\<close>

lemma returned_reads:
  "CurrentHeader (chain api) = Some hdr \<Longrightarrow> BlockStatus d api = Inr st \<Longrightarrow>
   BlockStatus_reads d api = window (Uint64 (Number hdr))"
  by (drule (1) BlockStatus_returned) (elim exE conjE)

lemma returned_NumBlocks:
  "CurrentHeader (chain api) = Some hdr \<Longrightarrow> BlockStatus d api = Inr st \<Longrightarrow>
   NumBlocks st = (if 64 > Uint64 (Number hdr) then Uint64 (Number hdr) - 1 else 64)"
  by (drule (1) BlockStatus_returned) (elim exE conjE, simp)

lemma returned_InturnPercent:
  "CurrentHeader (chain api) = Some hdr \<Longrightarrow> BlockStatus d api = Inr st \<Longrightarrow>
   headers_in api (window (Uint64 (Number hdr))) = Some hs \<Longrightarrow>
   InturnPercent st = float_div (100 * inturn_count d hs) (NumBlocks st)"
  by (drule (1) BlockStatus_returned) (elim exE conjE, simp)

lemma returned_SigningStatus:
  "CurrentHeader (chain api) = Some hdr \<Longrightarrow> BlockStatus d api = Inr st \<Longrightarrow>
   snapshot (pbft api) (chain api) (Uint64 (Number hdr)) (Hash hdr) = Inr snap \<Longrightarrow>
   headers_in api (window (Uint64 (Number hdr))) = Some hs \<Longrightarrow>
   sealers_of api hs = Some as \<Longrightarrow>
   SigningStatus st = production_counts (signers snap) as"
  by (drule (1) BlockStatus_returned) (elim exE conjE, simp)

lemma loop_reads_prefix:
  "\<exists>rest. rs @ block_numbers n e = fst (BlockStatus_loop d api n e rs v) @ rest"
proof (induction "unat e - unat n" arbitrary: n rs v)
  case 0
  then have "\<not> n < e"
    by (simp add: word_less_nat_alt)
  then show ?case
    by (subst loop_unfold) (simp add: block_numbers_done)
next
  case (Suc k)
  then have lt: "n < e"
    by (simp add: word_less_nat_alt)
  with Suc.hyps(2) have k: "k = unat e - unat (n + 1)"
    by (simp add: unat_succ)
  show ?case
  proof (cases "GetHeaderByNumber (chain api) n")
    case None
    with lt show ?thesis
      by (subst loop_unfold) (simp add: block_numbers_step)
  next
    case (Some h)
    show ?thesis
    proof (cases "Author (pbft api) h")
      case (Inl err)
      with lt Some show ?thesis
        by (subst loop_unfold) (simp add: block_numbers_step)
    next
      case (Inr a)
      from Suc.hyps(1) [OF k, of "rs @ [n]"] lt Some Inr show ?thesis
        by (subst loop_unfold) (simp add: block_numbers_step)
    qed
  qed
qed

lemma BlockStatus_reads_prefix:
  assumes head: "CurrentHeader (chain api) = Some hdr"
  shows "\<exists>rest. window (Uint64 (Number hdr)) = BlockStatus_reads d api @ rest"
proof (cases "snapshot (pbft api) (chain api) (Uint64 (Number hdr)) (Hash hdr)")
  case (Inl err)
  with head show ?thesis
    by (simp add: BlockStatus_reads_def BlockStatus_run_def)
next
  case (Inr snap)
  let ?e = "Uint64 (Number hdr)"
  let ?start = "if 64 > ?e then 1 else ?e - 64"
  let ?v = "\<lparr>optimals = 0, diff = 0,
             signStatus = fold (\<lambda>s m. m(s \<mapsto> 0)) (signers snap) Map.empty\<rparr>"
  have reads: "BlockStatus_reads d api = fst (BlockStatus_loop d api ?start ?e [] ?v)"
    using head Inr
    by (simp add: BlockStatus_reads_def BlockStatus_run_def Let_def split: prod.splits sum.splits)
  from loop_reads_prefix [of "[]" ?start ?e d api ?v]
  obtain rest where "block_numbers ?start ?e = fst (BlockStatus_loop d api ?start ?e [] ?v) @ rest"
    by auto
  moreover have "block_numbers ?start ?e = window ?e"
    by (simp add: window_def)
  ultimately show ?thesis
    using reads by auto
qed

lemma reads_within:
  assumes head: "CurrentHeader (chain api) = Some hdr"
  shows "set (BlockStatus_reads d api) \<subseteq> set (window (Uint64 (Number hdr)))"
proof -
  from BlockStatus_reads_prefix [OF head, of d] obtain rest
    where "window (Uint64 (Number hdr)) = BlockStatus_reads d api @ rest"
    by blast
  then show ?thesis
    by simp
qed

lemma zero_not_read:
  assumes "N < 2 ^ 64"
  shows "(0 :: uint64) \<notin> set (map of_nat [1 ..< N])"
proof
  assume "(0 :: uint64) \<in> set (map of_nat [1 ..< N])"
  then have "\<exists>k\<in>set [1 ..< N]. (0 :: uint64) = of_nat k"
    unfolding set_map image_iff .
  then obtain k where k: "k \<in> set [1 ..< N]" and zero: "(0 :: uint64) = of_nat k"
    by (rule bexE)
  from k assms have "k < 2 ^ 64" and "0 < k"
    by simp_all
  then have "unat (of_nat k :: uint64) = k"
    by (simp add: unat_of_nat)
  with zero \<open>0 < k\<close> show False
    by simp
qed

text \<open>
  C8.  On a chain whose head has a number \<open>N\<close> of at least 64 (and, as every block number
  the chain reader takes, below \<open>2 ^ 64\<close>), BlockStatus asks for headers of the numbers
  \<open>N - 64, \<dots>, N - 1\<close> only, in this order, and never for the number of the head.  A call
  that returns a status has asked for all of them, and the status reports 64 blocks.
\<close>

theorem BlockStatus_full_window:
  assumes head: "CurrentHeader (chain api) = Some hdr"
    and long: "64 \<le> Number hdr"
    and fits: "Number hdr < 2 ^ 64"
  shows "of_nat (Number hdr) \<notin> set (BlockStatus_reads d api) \<and>
         (\<exists>rest. map of_nat [Number hdr - 64 ..< Number hdr] = BlockStatus_reads d api @ rest) \<and>
         (BlockStatus d api = Inr st \<longrightarrow>
            BlockStatus_reads d api = map of_nat [Number hdr - 64 ..< Number hdr] \<and>
            NumBlocks st = 64)"
proof (intro conjI impI)
  from long fits have w: "window (Uint64 (Number hdr)) = map of_nat [Number hdr - 64 ..< Number hdr]"
    by (simp add: window_nat)
  from BlockStatus_reads_prefix [OF head, of d]
  show "\<exists>rest. map of_nat [Number hdr - 64 ..< Number hdr] = BlockStatus_reads d api @ rest"
    unfolding w .
  from reads_within [OF head, of d] head_not_read [OF fits, of "Number hdr - 64"]
  show "of_nat (Number hdr) \<notin> set (BlockStatus_reads d api)"
    unfolding w by blast
  assume ret: "BlockStatus d api = Inr st"
  from returned_reads [OF head ret]
  show "BlockStatus_reads d api = map of_nat [Number hdr - 64 ..< Number hdr]"
    unfolding w .
  from long fits have "\<not> 64 > Uint64 (Number hdr)"
    by (simp add: Uint64_less_64)
  with returned_NumBlocks [OF head ret] show "NumBlocks st = 64"
    by simp
qed

theorem BlockStatus_full_window_witness:
  "CurrentHeader (chain (example_api 64)) = Some (example_header 64) \<and>
   64 \<le> Number (example_header 64) \<and>
   Number (example_header 64) < 2 ^ 64 \<and>
   BlockStatus 2 (example_api 64) =
     Inr \<lparr>InturnPercent = Finite (5300 / 64),
          SigningStatus = production_counts [1, 2] (map example_sealer [0 ..< 64]),
          NumBlocks = 64\<rparr> \<and>
   BlockStatus_reads 2 (example_api 64) = map of_nat [0 ..< 64] \<and>
   (64 :: uint64) \<notin> set (BlockStatus_reads 2 (example_api 64))"
proof -
  have head: "CurrentHeader (chain (example_api 64)) = Some (example_header 64)"
    by (simp add: example_lookups)
  have number: "Number (example_header 64) = 64"
    by (simp add: example_header_def)
  have ret: "BlockStatus 2 (example_api 64) =
     Inr \<lparr>InturnPercent = Finite (5300 / 64),
          SigningStatus = production_counts [1, 2] (map example_sealer [0 ..< 64]),
          NumBlocks = 64\<rparr>"
    by (simp add: BlockStatus_def example_BlockStatus_run example_inturn float_div_def)
  have long: "64 \<le> Number (example_header 64)" and fits: "Number (example_header 64) < 2 ^ 64"
    by (simp_all add: number)
  note window = BlockStatus_full_window [OF head long fits, of 2]
  from window ret have reads: "BlockStatus_reads 2 (example_api 64) = map of_nat [0 ..< 64]"
    unfolding number by simp
  from window
  have "of_nat (Number (example_header 64)) \<notin> set (BlockStatus_reads 2 (example_api 64))"
    by (rule conjunct1)
  then have "(64 :: uint64) \<notin> set (BlockStatus_reads 2 (example_api 64))"
    unfolding number by simp
  with head long fits ret reads show ?thesis
    by (intro conjI)
qed

text \<open>
  C9.  On a chain whose head has a number \<open>N\<close> from 1 to 63, BlockStatus asks for headers
  of the numbers \<open>1, \<dots>, N - 1\<close> only, so neither for the genesis block nor for the head; a
  call that returns a status has asked for all of them, and the status reports \<open>N - 1\<close>
  blocks.  When the head is the genesis block and its snapshot resolves, \<open>end - start\<close> is
  \<open>0 - 1\<close> in 64 bits: the call asks for no header and returns a status that reports
  \<open>2 ^ 64 - 1\<close> blocks with an in-turn percentage of 0.
\<close>

theorem BlockStatus_short_chain:
  assumes head: "CurrentHeader (chain api) = Some hdr"
  shows "(1 \<le> Number hdr \<and> Number hdr \<le> 63 \<longrightarrow>
            0 \<notin> set (BlockStatus_reads d api) \<and>
            of_nat (Number hdr) \<notin> set (BlockStatus_reads d api) \<and>
            (\<exists>rest. map of_nat [1 ..< Number hdr] = BlockStatus_reads d api @ rest) \<and>
            (BlockStatus d api = Inr st \<longrightarrow>
               BlockStatus_reads d api = map of_nat [1 ..< Number hdr] \<and>
               NumBlocks st = of_nat (Number hdr - 1))) \<and>
         (Number hdr = 0 \<and>
          snapshot (pbft api) (chain api) (Uint64 (Number hdr)) (Hash hdr) = Inr snap \<longrightarrow>
            BlockStatus d api =
              Inr \<lparr>InturnPercent = Finite 0,
                   SigningStatus = production_counts (signers snap) [],
                   NumBlocks = of_nat (2 ^ 64 - 1)\<rparr> \<and>
            BlockStatus_reads d api = [])"
proof (intro conjI impI)
  assume a: "1 \<le> Number hdr \<and> Number hdr \<le> 63"
  then have fits: "Number hdr < 2 ^ 64" and short: "Number hdr < 64"
    by simp_all
  then have w: "window (Uint64 (Number hdr)) = map of_nat [1 ..< Number hdr]"
    by (simp add: window_nat)
  from BlockStatus_reads_prefix [OF head, of d]
  show "\<exists>rest. map of_nat [1 ..< Number hdr] = BlockStatus_reads d api @ rest"
    unfolding w .
  from reads_within [OF head, of d] head_not_read [OF fits, of 1]
  show "of_nat (Number hdr) \<notin> set (BlockStatus_reads d api)"
    unfolding w by blast
  from reads_within [OF head, of d] zero_not_read [OF fits]
  show "0 \<notin> set (BlockStatus_reads d api)"
    unfolding w by blast
  assume ret: "BlockStatus d api = Inr st"
  from returned_reads [OF head ret]
  show "BlockStatus_reads d api = map of_nat [1 ..< Number hdr]"
    unfolding w .
  from fits short have "64 > Uint64 (Number hdr)"
    by (simp add: Uint64_less_64)
  with returned_NumBlocks [OF head ret] have "NumBlocks st = Uint64 (Number hdr) - 1"
    by simp
  also from a have "\<dots> = of_nat (Number hdr - 1)"
    by (simp add: Uint64_def)
  finally show "NumBlocks st = of_nat (Number hdr - 1)" .
next
  assume a: "Number hdr = 0 \<and>
    snapshot (pbft api) (chain api) (Uint64 (Number hdr)) (Hash hdr) = Inr snap"
  then have zero: "Uint64 (Number hdr) = 0"
    by (simp add: Uint64_def)
  have hs: "headers_in api (window (Uint64 (Number hdr))) = Some []"
    by (simp add: zero window_def block_numbers_def headers_in_def)
  have as: "sealers_of api [] = Some []"
    by (simp add: sealers_of_def)
  from a have snap: "snapshot (pbft api) (chain api) (Uint64 (Number hdr)) (Hash hdr) = Inr snap"
    by (rule conjunct2)
  note run = BlockStatus_run_complete [OF head snap hs as, of d]
  from run show "BlockStatus d api =
      Inr \<lparr>InturnPercent = Finite 0,
           SigningStatus = production_counts (signers snap) [],
           NumBlocks = of_nat (2 ^ 64 - 1)\<rparr>"
    by (simp add: BlockStatus_def zero inturn_count_def float_div_def)
  from run show "BlockStatus_reads d api = []"
    by (simp add: BlockStatus_reads_def zero window_def block_numbers_def)
qed

theorem BlockStatus_short_chain_witness:
  "CurrentHeader (chain (example_api 3)) = Some (example_header 3) \<and>
   1 \<le> Number (example_header 3) \<and> Number (example_header 3) \<le> 63 \<and>
   BlockStatus 2 (example_api 3) =
     Inr \<lparr>InturnPercent = Finite 100,
          SigningStatus = production_counts [1, 2] [2, 1],
          NumBlocks = 2\<rparr> \<and>
   BlockStatus_reads 2 (example_api 3) = [1, 2] \<and>
   CurrentHeader (chain (example_api 0)) = Some (example_header 0) \<and>
   Number (example_header 0) = 0 \<and>
   snapshot (pbft (example_api 0)) (chain (example_api 0))
     (Uint64 (Number (example_header 0))) (Hash (example_header 0)) =
     Inr \<lparr>snap_Number = 0, snap_Hash = 0, signers = [1, 2]\<rparr> \<and>
   BlockStatus 2 (example_api 0) =
     Inr \<lparr>InturnPercent = Finite 0,
          SigningStatus = production_counts [1, 2] [],
          NumBlocks = 18446744073709551615\<rparr> \<and>
   BlockStatus_reads 2 (example_api 0) = []"
proof -
  have head3: "CurrentHeader (chain (example_api 3)) = Some (example_header 3)"
    and head0: "CurrentHeader (chain (example_api 0)) = Some (example_header 0)"
    by (simp_all add: example_lookups)
  have number3: "Number (example_header 3) = 3" and number0: "Number (example_header 0) = 0"
    by (simp_all add: example_header_def)
  have ret: "BlockStatus 2 (example_api 3) =
     Inr \<lparr>InturnPercent = Finite 100,
          SigningStatus = production_counts [1, 2] [2, 1],
          NumBlocks = 2\<rparr>"
    by (simp add: BlockStatus_def example_BlockStatus_run inturn_count_def example_header_def
          example_sealer_def float_div_def upt_rec [of _ "numeral _"])
  have snap: "snapshot (pbft (example_api 0)) (chain (example_api 0))
        (Uint64 (Number (example_header 0))) (Hash (example_header 0)) =
      Inr \<lparr>snap_Number = 0, snap_Hash = 0, signers = [1, 2]\<rparr>"
    by (simp add: example_snapshot example_header_def Uint64_def)
  from BlockStatus_short_chain [OF head3, where d = 2] number3 ret
  have reads3: "BlockStatus_reads 2 (example_api 3) = [1, 2]"
    by (simp add: upt_rec [of _ "numeral _"])
  from BlockStatus_short_chain [OF head0, where d = 2] number0 snap
  have ret0: "BlockStatus 2 (example_api 0) =
     Inr \<lparr>InturnPercent = Finite 0,
          SigningStatus = production_counts [1, 2] [],
          NumBlocks = 18446744073709551615\<rparr>"
    and reads0: "BlockStatus_reads 2 (example_api 0) = []"
    by simp_all
  from head3 number3 ret reads3 head0 number0 snap ret0 reads0 show ?thesis
    by simp
qed

subsection \<open>A header that is missing\<close>

lemma loop_missing:
  "block_numbers n e = pre @ k # post \<Longrightarrow> headers_in api pre = Some hs \<Longrightarrow>
   sealers_of api hs = Some as \<Longrightarrow> GetHeaderByNumber (chain api) k = None \<Longrightarrow>
   BlockStatus_loop d api n e rs v = (rs @ pre @ [k], Inl (MissingBlock k))"
proof (induction pre arbitrary: n rs v hs as)
  case Nil
  have lt: "n < e"
  proof (rule ccontr)
    assume "\<not> n < e"
    with Nil.prems(1) show False
      by (simp add: block_numbers_done)
  qed
  with Nil.prems(1) have "k = n"
    by (simp add: block_numbers_step)
  with lt Nil.prems(4) show ?case
    by (subst loop_unfold) simp
next
  case (Cons p pre)
  have lt: "n < e"
  proof (rule ccontr)
    assume "\<not> n < e"
    with Cons.prems(1) show False
      by (simp add: block_numbers_done)
  qed
  then have "block_numbers n e = n # block_numbers (n + 1) e"
    by (rule block_numbers_step)
  with Cons.prems(1) have p: "p = n" and rest: "block_numbers (n + 1) e = pre @ k # post"
    by auto
  from Cons.prems(2) p obtain h hs' where here: "GetHeaderByNumber (chain api) n = Some h"
    and hs: "hs = h # hs'" and rest_hs: "headers_in api pre = Some hs'"
    by (auto simp: headers_in_def split: option.splits)
  from Cons.prems(3) hs obtain a as' where a: "Author (pbft api) h = Inr a"
    and rest_as: "sealers_of api hs' = Some as'"
    by (auto simp: sealers_of_def recovered_def split: option.splits sum.splits)
  show ?case
    by (subst loop_unfold)
       (simp add: lt here a p Cons.IH [OF rest rest_hs rest_as Cons.prems(4)])
qed

lemma BlockStatus_missing_header:
  assumes head: "CurrentHeader (chain api) = Some hdr"
    and snap: "snapshot (pbft api) (chain api) (Uint64 (Number hdr)) (Hash hdr) = Inr snap"
    and split: "window (Uint64 (Number hdr)) = pre @ k # post"
    and before: "headers_in api pre = Some hs" "sealers_of api hs = Some as"
    and missing: "GetHeaderByNumber (chain api) k = None"
  shows "BlockStatus d api = Inl (MissingBlock k) \<and> BlockStatus_reads d api = pre @ [k]"
proof (cases "64 > Uint64 (Number hdr)")
  case True
  with split have "block_numbers 1 (Uint64 (Number hdr)) = pre @ k # post"
    by (simp add: window_def)
  from loop_missing [OF this before missing] True head snap show ?thesis
    by (simp add: BlockStatus_def BlockStatus_reads_def BlockStatus_run_def Let_def)
next
  case False
  with split have "block_numbers (Uint64 (Number hdr) - 64) (Uint64 (Number hdr)) = pre @ k # post"
    by (simp add: window_def)
  from loop_missing [OF this before missing] False head snap show ?thesis
    by (simp add: BlockStatus_def BlockStatus_reads_def BlockStatus_run_def Let_def)
qed

subsection \<open>Sizes\<close>

lemma window_length:
  "length (window e) = (if 64 > e then unat e - 1 else 64)"
proof (cases "64 > e")
  case True
  then show ?thesis
    by (simp add: window_def block_numbers_def)
next
  case False
  then have "64 \<le> e"
    by simp
  then have "unat (e - 64) = unat e - 64" and "64 \<le> unat e"
    by (simp_all add: unat_sub word_le_nat_alt)
  with False show ?thesis
    by (simp add: window_def block_numbers_def)
qed

lemma BlockStatus_never_63:
  assumes ret: "BlockStatus d api = Inr st"
  shows "NumBlocks st \<noteq> 63 \<and> length (BlockStatus_reads d api) \<noteq> 63"
proof -
  from BlockStatus_run_returns [OF ret] obtain hdr
    where head: "CurrentHeader (chain api) = Some hdr"
    by blast
  let ?e = "Uint64 (Number hdr)"
  have "(if 64 > ?e then ?e - 1 else 64) \<noteq> 63"
  proof (cases "64 > ?e")
    case True
    have "?e - 1 \<noteq> 63"
    proof
      assume "?e - 1 = 63"
      then have "?e = 63 + 1"
        by (metis diff_add_cancel)
      with True show False
        by simp
    qed
    with True show ?thesis
      by simp
  next
    case False
    then show ?thesis
      by simp
  qed
  with returned_NumBlocks [OF head ret] have "NumBlocks st \<noteq> 63"
    by simp
  moreover have "length (window ?e) \<noteq> 63"
  proof (cases "64 > ?e")
    case True
    then have "unat ?e < 64"
      by (simp add: word_less_nat_alt)
    with True show ?thesis
      by (simp add: window_length)
  next
    case False
    then show ?thesis
      by (simp add: window_length)
  qed
  ultimately show ?thesis
    by (simp add: returned_reads [OF head ret])
qed

lemma inturn_count_bounds: "0 \<le> inturn_count d hs \<and> inturn_count d hs \<le> int (length hs)"
  by (simp add: inturn_count_def)

lemma BlockStatus_operands:
  assumes ret: "BlockStatus d api = Inr st"
  shows "\<exists>a. InturnPercent st = float_div a (NumBlocks st) \<and> 0 \<le> a \<and> a \<le> 6400 \<and>
           (a = 0 \<or> unat (NumBlocks st) \<le> 64)"
proof -
  from BlockStatus_run_returns [OF ret] obtain hdr hs
    where head: "CurrentHeader (chain api) = Some hdr"
      and hs: "headers_in api (window (Uint64 (Number hdr))) = Some hs"
    by blast
  let ?e = "Uint64 (Number hdr)"
  let ?a = "100 * inturn_count d hs"
  note nb = returned_NumBlocks [OF head ret]
  have len: "length hs = (if 64 > ?e then unat ?e - 1 else 64)"
    using headers_in_length [OF hs] by (simp add: window_length)
  have "length hs \<le> 64"
  proof (cases "64 > ?e")
    case True
    then have "unat ?e < 64"
      by (simp add: word_less_nat_alt)
    with True len show ?thesis
      by simp
  next
    case False
    with len show ?thesis
      by simp
  qed
  with inturn_count_bounds [of d hs] have range: "0 \<le> ?a" "?a \<le> 6400"
    by simp_all
  have "?a = 0 \<or> unat (NumBlocks st) \<le> 64"
  proof (cases "64 > ?e")
    case True
    show ?thesis
    proof (cases "?e = 0")
      case True
      with len have "hs = []"
        by simp
      then show ?thesis
        by (simp add: inturn_count_def)
    next
      case False
      then have "1 \<le> ?e"
        by (simp add: word_le_nat_alt unat_gt_0 Suc_le_eq)
      then have "unat (?e - 1) = unat ?e - 1"
        by (simp add: unat_sub)
      moreover from \<open>64 > ?e\<close> have "unat ?e < 64"
        by (simp add: word_less_nat_alt)
      ultimately have "unat (?e - 1) \<le> 64"
        by arith
      with nb \<open>64 > ?e\<close> show ?thesis
        by simp
    qed
  next
    case False
    with nb show ?thesis
      by simp
  qed
  with returned_InturnPercent [OF head ret hs] range show ?thesis
    by blast
qed

subsection \<open>Errors of the snapshot store\<close>

text \<open>
  C4.  When the snapshot of the header that a query has resolved cannot be resolved, each
  of GetValidatorsByNumber, GetBlockStatusByNumber, GetValidatorsByHash,
  GetBlockStatusByHash and BlockStatus returns the error of the snapshot store as it is, and
  no result in its place; BlockStatus has not asked for any header by then.
\<close>

theorem snapshot_error:
  assumes fail: "snapshot (pbft api) (chain api) (Uint64 (Number hdr)) (Hash hdr) = Inl err"
  shows "((number = None \<or> number = Some L) \<and> CurrentHeader (chain api) = Some hdr \<longrightarrow>
            GetValidatorsByNumber L api number = Inl err \<and>
            GetBlockStatusByNumber L api number = Inl err) \<and>
         (n \<noteq> L \<and> GetHeaderByNumber (chain api) n = Some hdr \<longrightarrow>
            GetValidatorsByNumber L api (Some n) = Inl err \<and>
            GetBlockStatusByNumber L api (Some n) = Inl err) \<and>
         (GetHeaderByHash (chain api) x = Some hdr \<longrightarrow>
            GetValidatorsByHash api x = Inl err \<and>
            GetBlockStatusByHash api x = Inl err) \<and>
         (CurrentHeader (chain api) = Some hdr \<longrightarrow>
            BlockStatus d api = Inl err \<and> BlockStatus_reads d api = [])"
  using fail
  by (auto simp: GetBlockStatusByNumber_def GetValidatorsByNumber_def GetBlockStatusByHash_def
        GetValidatorsByHash_def BlockStatus_def BlockStatus_reads_def BlockStatus_run_def)

theorem snapshot_error_witness:
  "snapshot (pbft (broken_api 3)) (chain (broken_api 3)) (Uint64 (Number (example_header 3)))
     (Hash (example_header 3)) = Inl (EngineError 7) \<and>
   CurrentHeader (chain (broken_api 3)) = Some (example_header 3) \<and>
   GetValidatorsByNumber (- 1) (broken_api 3) None = Inl (EngineError 7) \<and>
   GetBlockStatusByNumber (- 1) (broken_api 3) (Some (- 1)) = Inl (EngineError 7) \<and>
   (3 :: uint64) \<noteq> - 1 \<and>
   GetHeaderByNumber (chain (broken_api 3)) 3 = Some (example_header 3) \<and>
   GetValidatorsByNumber (- 1) (broken_api 3) (Some 3) = Inl (EngineError 7) \<and>
   GetBlockStatusByNumber (- 1) (broken_api 3) (Some 3) = Inl (EngineError 7) \<and>
   GetHeaderByHash (chain (broken_api 3)) 3 = Some (example_header 3) \<and>
   GetValidatorsByHash (broken_api 3) 3 = Inl (EngineError 7) \<and>
   GetBlockStatusByHash (broken_api 3) 3 = Inl (EngineError 7) \<and>
   BlockStatus 2 (broken_api 3) = Inl (EngineError 7)"
proof -
  have fail: "snapshot (pbft (broken_api 3)) (chain (broken_api 3))
      (Uint64 (Number (example_header 3))) (Hash (example_header 3)) = Inl (EngineError 7)"
    by (simp add: example_snapshot)
  have head: "CurrentHeader (chain (broken_api 3)) = Some (example_header 3)"
    by (simp add: example_lookups)
  have other: "(3 :: uint64) \<noteq> - 1"
    by simp
  have number: "GetHeaderByNumber (chain (broken_api 3)) 3 = Some (example_header 3)"
    by (simp add: example_lookups)
  have hash: "GetHeaderByHash (chain (broken_api 3)) 3 = Some (example_header 3)"
    by (simp add: example_lookups)
  from snapshot_error [OF fail, where number = None and L = "- 1" and n = 3 and x = 3 and d = 2]
    head other number hash
  have "GetValidatorsByNumber (- 1) (broken_api 3) None = Inl (EngineError 7)"
    and "GetValidatorsByNumber (- 1) (broken_api 3) (Some 3) = Inl (EngineError 7)"
    and "GetBlockStatusByNumber (- 1) (broken_api 3) (Some 3) = Inl (EngineError 7)"
    and "GetValidatorsByHash (broken_api 3) 3 = Inl (EngineError 7)"
    and "GetBlockStatusByHash (broken_api 3) 3 = Inl (EngineError 7)"
    and "BlockStatus 2 (broken_api 3) = Inl (EngineError 7)"
    by simp_all
  moreover
  from snapshot_error [OF fail, where number = "Some (- 1)" and L = "- 1" and n = 3 and x = 3
      and d = 2] head
  have "GetBlockStatusByNumber (- 1) (broken_api 3) (Some (- 1)) = Inl (EngineError 7)"
    by simp
  ultimately show ?thesis
    using fail head other number hash by (intro conjI)
qed

subsection \<open>The in-turn percentage\<close>

text \<open>
  On a full window the divisor of the percentage is 64: a call that returns on a chain
  whose head has a number of at least 64 has evaluated 64 headers.
\<close>

lemma full_window_percent:
  assumes head: "CurrentHeader (chain api) = Some hdr"
    and long: "64 \<le> Number hdr"
    and fits: "Number hdr < 2 ^ 64"
    and ret: "BlockStatus d api = Inr st"
    and hs: "headers_in api (map of_nat [Number hdr - 64 ..< Number hdr]) = Some hs"
    and count: "inturn_count d hs = 53"
  shows "length hs = 64 \<and> NumBlocks st = 64 \<and> InturnPercent st = Finite (100 * 53 / 64)"
proof -
  from long fits have w: "window (Uint64 (Number hdr)) = map of_nat [Number hdr - 64 ..< Number hdr]"
    by (simp add: window_nat)
  from long have len: "length hs = 64"
    using headers_in_length [OF hs] by simp
  from long fits have "\<not> 64 > Uint64 (Number hdr)"
    by (simp add: Uint64_less_64)
  with returned_NumBlocks [OF head ret] have nb: "NumBlocks st = 64"
    by simp
  from hs have "headers_in api (window (Uint64 (Number hdr))) = Some hs"
    by (simp add: w)
  from returned_InturnPercent [OF head ret this] have "InturnPercent st = Finite (100 * 53 / 64)"
    by (simp add: nb count float_div_def)
  with len nb show ?thesis
    by (intro conjI)
qed

text \<open>
  C3.  The chain of scenario B: the head has the number 64, and exactly 53 of the 63
  blocks \<open>1, \<dots>, 63\<close> that follow the genesis block carry the in-turn difficulty.  The
  scenario expects 63 evaluated blocks and a percentage of \<open>100 * 53 / 63\<close>.  BlockStatus
  asks for the 64 headers \<open>0, \<dots>, 63\<close>, the genesis block among them, reports 64 blocks and
  divides by 64.  One block earlier, at head 63, the test \<^verbatim>\<open>numBlocks > end\<close> still holds and
  the window starts at block 1.
\<close>

theorem BlockStatus_scenario_B:
  "CurrentHeader (chain (example_api 64)) = Some (example_header 64) \<and>
   Number (example_header 64) = 64 \<and>
   length (map example_header [1 ..< 64]) = 63 \<and>
   inturn_count 2 (map example_header [1 ..< 64]) = 53 \<and>
   BlockStatus_reads 2 (example_api 64) = map of_nat [0 ..< 64] \<and>
   BlockStatus 2 (example_api 64) =
     Inr \<lparr>InturnPercent = Finite (100 * 53 / 64),
          SigningStatus = production_counts [1, 2] (map example_sealer [0 ..< 64]),
          NumBlocks = 64\<rparr> \<and>
   Finite (100 * 53 / 64) \<noteq> Finite (100 * 53 / 63) \<and>
   BlockStatus_reads 2 (example_api 63) = map of_nat [1 ..< 63]"
proof -
  have head: "CurrentHeader (chain (example_api 64)) = Some (example_header 64)"
    by (simp add: example_lookups)
  have number: "Number (example_header 64) = 64"
    by (simp add: example_header_def)
  have blocks: "length (map example_header [1 ..< 64]) = 63"
    by simp
  have reads: "BlockStatus_reads 2 (example_api 64) = map of_nat [0 ..< 64]"
    by (simp add: BlockStatus_reads_def example_BlockStatus_run)
  have status: "BlockStatus 2 (example_api 64) =
     Inr \<lparr>InturnPercent = Finite (100 * 53 / 64),
          SigningStatus = production_counts [1, 2] (map example_sealer [0 ..< 64]),
          NumBlocks = 64\<rparr>"
    by (simp add: BlockStatus_def example_BlockStatus_run example_inturn float_div_def)
  have differ: "Finite (100 * 53 / 64) \<noteq> Finite (100 * 53 / 63)"
    by simp
  have before: "BlockStatus_reads 2 (example_api 63) = map of_nat [1 ..< 63]"
    by (simp add: BlockStatus_reads_def example_BlockStatus_run)
  from head number blocks example_inturn_genesis_apart reads status differ before
  show ?thesis
    by (intro conjI)
qed

subsection \<open>A chain of the genesis block alone\<close>

text \<open>
  C1.  BlockStatus on the example chain whose head is the genesis block: the call asks
  for no header, so it evaluates no block, and the status it returns reports
  \<open>18446744073709551615\<close> blocks.
\<close>

theorem BlockStatus_genesis_head:
  "CurrentHeader (chain (example_api 0)) = Some (example_header 0) \<and>
   Number (example_header 0) = 0 \<and>
   BlockStatus_reads 2 (example_api 0) = [] \<and>
   BlockStatus 2 (example_api 0) =
     Inr \<lparr>InturnPercent = Finite 0,
          SigningStatus = production_counts [1, 2] [],
          NumBlocks = 18446744073709551615\<rparr>"
  by (simp add: BlockStatus_def BlockStatus_reads_def example_BlockStatus_run example_lookups
        example_header_def inturn_count_def float_div_def)

end
